theory Spec2Isabelle
  imports Complex_Main "HOL-Library.Sublist" "HOL-Library.Multiset"
begin

section \<open>Strings\<close>

text \<open>
  Strings of the program are modelled as \<^typ>\<open>string\<close>. \<open>toLowerCase\<close> maps the
  letters \<open>A\<close>..\<open>Z\<close> to \<open>a\<close>..\<open>z\<close> and keeps every other character;
  \<open>str_includes\<close> is \<open>String.prototype.includes\<close> (contiguous substring);
  \<open>trim\<close> removes leading and trailing white space.
\<close>

definition toLowerCase_char :: "char \<Rightarrow> char" where
  "toLowerCase_char c =
     (let n = of_char c :: nat in if 65 \<le> n \<and> n \<le> 90 then char_of (n + 32) else c)"

definition toLowerCase :: "string \<Rightarrow> string" where
  "toLowerCase s = map toLowerCase_char s"

fun str_includes :: "'a list \<Rightarrow> 'a list \<Rightarrow> bool" where
  "str_includes [] t = (t = [])"
| "str_includes (c # s) t = (prefix t (c # s) \<or> str_includes s t)"



text \<open>\<open>a < b\<close> on strings: lexicographic order on the character codes.\<close>

fun str_less :: "string \<Rightarrow> string \<Rightarrow> bool" where
  "str_less [] [] = False"
| "str_less [] (d # t) = True"
| "str_less (c # s) [] = False"
| "str_less (c # s) (d # t) =
     (if (of_char c :: nat) < of_char d then True
      else if (of_char d :: nat) < of_char c then False
      else str_less s t)"

text \<open>\<open>Number.prototype.toString\<close> on a non-negative integer: its decimal digits.\<close>

definition digitChar :: "nat \<Rightarrow> char" where
  "digitChar d = ''0123456789'' ! d"

function toString :: "nat \<Rightarrow> string" where
  "toString n =
     (if n < 10 then [digitChar n]
      else toString (n div 10) @ [digitChar (n mod 10)])"
  by pat_completeness auto
termination
proof (relation "measure (\<lambda>n. n)")
  show "wf (measure (\<lambda>n. n))" by simp
next
  fix n :: nat
  assume "\<not> n < 10"
  then show "(n div 10, n) \<in> measure (\<lambda>n. n)" by simp
qed

declare toString.simps [simp del]

text \<open>Reading a digit string back (used only to show that \<open>toString\<close> is injective).\<close>

definition digitsValue :: "string \<Rightarrow> nat" where
  "digitsValue s = foldl (\<lambda>a c. 10 * a + (of_char c - 48)) 0 s"


section \<open>Data model\<close>

datatype status = WantToPlay | Playing | Completed | Dropped

fun status_value :: "status \<Rightarrow> string" where
  "status_value WantToPlay = ''want-to-play''"
| "status_value Playing = ''playing''"
| "status_value Completed = ''completed''"
| "status_value Dropped = ''dropped''"

text \<open>\<open>interface Game\<close>. An optional field that is absent or \<open>undefined\<close> is \<open>None\<close>.\<close>

record game =
  id' :: string
  title :: string
  platforms :: "string list"
  genres :: "string list"
  coverUrl :: "string option"
  releaseDate :: "string option"
  description :: "string option"
  status :: status
  rating :: "int option"
  notes' :: "string option"
  dateAdded :: string
  dateCompleted :: "string option"
  rawgId :: "int option"
  metacriticScore :: "int option"

text \<open>
  \<open>Partial<Game>\<close>: every key may be missing (\<open>None\<close>). A key of an optional field
  that is present holds a value or \<open>undefined\<close> (\<open>Some None\<close>).
\<close>

record game_partial =
  p_id :: "string option"
  p_title :: "string option"
  p_platforms :: "string list option"
  p_genres :: "string list option"
  p_coverUrl :: "string option option"
  p_releaseDate :: "string option option"
  p_description :: "string option option"
  p_status :: "status option"
  p_rating :: "int option option"
  p_notes :: "string option option"
  p_dateAdded :: "string option"
  p_dateCompleted :: "string option option"
  p_rawgId :: "int option option"
  p_metacriticScore :: "int option option"

text \<open>\<open>Omit<Game, 'id' | 'dateAdded'>\<close>, the argument of \<open>addGame\<close>.\<close>

record game_draft =
  d_title :: string
  d_platforms :: "string list"
  d_genres :: "string list"
  d_coverUrl :: "string option"
  d_releaseDate :: "string option"
  d_description :: "string option"
  d_status :: status
  d_rating :: "int option"
  d_notes :: "string option"
  d_dateCompleted :: "string option"
  d_rawgId :: "int option"
  d_metacriticScore :: "int option"

definition no_updates :: game_partial where
  "no_updates = \<lparr>p_id = None, p_title = None, p_platforms = None, p_genres = None,
     p_coverUrl = None, p_releaseDate = None, p_description = None, p_status = None,
     p_rating = None, p_notes = None, p_dateAdded = None, p_dateCompleted = None,
     p_rawgId = None, p_metacriticScore = None\<rparr>"

definition override :: "'a \<Rightarrow> 'a option \<Rightarrow> 'a" where
  "override old new = (case new of None \<Rightarrow> old | Some v \<Rightarrow> v)"

text \<open>The object spread \<open>{ ...game, ...updates }\<close>.\<close>

definition spread :: "game \<Rightarrow> game_partial \<Rightarrow> game" where
  "spread g u =
     \<lparr>id' = override (id' g) (p_id u),
      title = override (title g) (p_title u),
      platforms = override (platforms g) (p_platforms u),
      genres = override (genres g) (p_genres u),
      coverUrl = override (coverUrl g) (p_coverUrl u),
      releaseDate = override (releaseDate g) (p_releaseDate u),
      description = override (description g) (p_description u),
      status = override (status g) (p_status u),
      rating = override (rating g) (p_rating u),
      notes' = override (notes' g) (p_notes u),
      dateAdded = override (dateAdded g) (p_dateAdded u),
      dateCompleted = override (dateCompleted g) (p_dateCompleted u),
      rawgId = override (rawgId g) (p_rawgId u),
      metacriticScore = override (metacriticScore g) (p_metacriticScore u)\<rparr>"


section \<open>Catalog store\<close>

text \<open>
  The component state that the catalog operations touch: the \<open>games\<close> array, the blob
  under \<open>STORAGE_KEY\<close> (the array that was last serialised there, \<open>None\<close> while the
  key is missing), the game shown in the detail dialog and the add-form flag.
\<close>

record app =
  games :: "game list"
  storage :: "game list option"
  selectedGame :: "game option"
  showAddForm :: bool

definition saveGames :: "game list \<Rightarrow> app \<Rightarrow> app" where
  "saveGames gs st = st\<lparr>storage := Some gs\<rparr>"

text \<open>
  \<open>setGames(prev => f(prev))\<close> followed by the effect
  \<open>useEffect(() => saveGames(games), [games])\<close> that runs once the array has changed.
\<close>

definition setGames :: "(game list \<Rightarrow> game list) \<Rightarrow> app \<Rightarrow> app" where
  "setGames f st = saveGames (f (games st)) (st\<lparr>games := f (games st)\<rparr>)"

text \<open>
  \<open>addGame\<close>: \<open>now\<close> is the reading of \<open>Date.now()\<close> (milliseconds), \<open>today\<close> the
  string \<open>new Date().toISOString().split('T')[0]\<close>.
\<close>

definition newGame :: "nat \<Rightarrow> string \<Rightarrow> game_draft \<Rightarrow> game" where
  "newGame now today gameData =
     \<lparr>id' = toString now,
      title = d_title gameData,
      platforms = d_platforms gameData,
      genres = d_genres gameData,
      coverUrl = d_coverUrl gameData,
      releaseDate = d_releaseDate gameData,
      description = d_description gameData,
      status = d_status gameData,
      rating = d_rating gameData,
      notes' = d_notes gameData,
      dateAdded = today,
      dateCompleted = d_dateCompleted gameData,
      rawgId = d_rawgId gameData,
      metacriticScore = d_metacriticScore gameData\<rparr>"

definition addGame :: "nat \<Rightarrow> string \<Rightarrow> game_draft \<Rightarrow> app \<Rightarrow> app" where
  "addGame now today gameData st =
     (setGames (\<lambda>prev. prev @ [newGame now today gameData]) st)\<lparr>showAddForm := False\<rparr>"

definition updateGame :: "string \<Rightarrow> game_partial \<Rightarrow> app \<Rightarrow> app" where
  "updateGame gameId updates st =
     setGames (map (\<lambda>game. if id' game = gameId then spread game updates else game)) st"

definition deleteGame :: "string \<Rightarrow> app \<Rightarrow> app" where
  "deleteGame gameId st =
     (setGames (filter (\<lambda>game. id' game \<noteq> gameId)) st)\<lparr>selectedGame := None\<rparr>"


text \<open>
  \<open>handleStatusChange\<close> of the detail dialog. Its \<open>game\<close> is the dialog's prop, that
  is \<open>selectedGame\<close>; \<open>onUpdate\<close> is \<open>updateGame(selectedGame.id, updates)\<close>.
\<close>

definition statusChangeUpdates :: "string \<Rightarrow> game \<Rightarrow> status \<Rightarrow> game_partial" where
  "statusChangeUpdates today game st' =
     (let updates = no_updates\<lparr>p_status := Some st'\<rparr> in
      if st' = Completed \<and> status game \<noteq> Completed
        then updates\<lparr>p_dateCompleted := Some (Some today)\<rparr>
      else if st' \<noteq> Completed
        then updates\<lparr>p_dateCompleted := Some None\<rparr>
      else updates)"

definition handleStatusChange :: "string \<Rightarrow> status \<Rightarrow> app \<Rightarrow> app" where
  "handleStatusChange today st' st =
     (case selectedGame st of
        None \<Rightarrow> st
      | Some game \<Rightarrow> updateGame (id' game) (statusChangeUpdates today game st') st)"

text \<open>
  The status selector of a card in the grid:
  \<open>onStatusChange={(status) => updateGame(game.id, { status })}\<close>.
\<close>

definition onStatusChange :: "game \<Rightarrow> status \<Rightarrow> app \<Rightarrow> app" where
  "onStatusChange game st' st = updateGame (id' game) (no_updates\<lparr>p_status := Some st'\<rparr>) st"

text \<open>A run of add operations, each with its own clock reading, date and draft.\<close>

fun addAll :: "(nat \<times> string \<times> game_draft) list \<Rightarrow> app \<Rightarrow> app" where
  "addAll [] st = st"
| "addAll ((now, today, gameData) # ops) st = addAll ops (addGame now today gameData st)"


section \<open>Query engine\<close>

text \<open>The predicate of \<open>games.filter(...)\<close> in \<open>filteredGames\<close>, one definition per line.\<close>

definition matchesSearch :: "string \<Rightarrow> game \<Rightarrow> bool" where
  "matchesSearch searchTerm game =
     (str_includes (toLowerCase (title game)) (toLowerCase searchTerm) \<or>
      list_ex (\<lambda>g. str_includes (toLowerCase g) (toLowerCase searchTerm)) (genres game))"

definition matchesPlatforms :: "string list \<Rightarrow> game \<Rightarrow> bool" where
  "matchesPlatforms selectedPlatforms game =
     (length selectedPlatforms = 0 \<or>
      list_ex (\<lambda>p. List.member (platforms game) p) selectedPlatforms)"

definition matchesGenres :: "string list \<Rightarrow> game \<Rightarrow> bool" where
  "matchesGenres selectedGenres game =
     (length selectedGenres = 0 \<or>
      list_ex (\<lambda>g. List.member (genres game) g) selectedGenres)"

definition matchesStatus :: "string list \<Rightarrow> game \<Rightarrow> bool" where
  "matchesStatus selectedStatus game =
     (length selectedStatus = 0 \<or> List.member selectedStatus (status_value (status game)))"

definition filterStage ::
  "game list \<Rightarrow> string \<Rightarrow> string list \<Rightarrow> string list \<Rightarrow> string list \<Rightarrow> game list" where
  "filterStage gs searchTerm selectedPlatforms selectedGenres selectedStatus =
     filter (\<lambda>game. matchesSearch searchTerm game \<and> matchesPlatforms selectedPlatforms game \<and>
                     matchesGenres selectedGenres game \<and> matchesStatus selectedStatus game) gs"

text \<open>
  The seven comparison functions handed to \<open>sort\<close>. \<open>localeCompare\<close> belongs to the
  host (its collation depends on the locale), so it is a parameter \<open>lc\<close>.
\<close>

type_synonym 'a comparefn = "'a \<Rightarrow> 'a \<Rightarrow> int"

definition ratingOr0 :: "game \<Rightarrow> int" where
  "ratingOr0 g = (case rating g of None \<Rightarrow> 0 | Some r \<Rightarrow> if r = 0 then 0 else r)"

definition cmp_title_az :: "string comparefn \<Rightarrow> game comparefn" where
  "cmp_title_az lc a b = lc (title a) (title b)"

definition cmp_title_za :: "string comparefn \<Rightarrow> game comparefn" where
  "cmp_title_za lc a b = lc (title b) (title a)"

definition cmp_date_oldest :: "game comparefn" where
  "cmp_date_oldest a b = (if str_less (dateAdded b) (dateAdded a) then 1 else - 1)"

definition cmp_date_newest :: "game comparefn" where
  "cmp_date_newest a b = (if str_less (dateAdded a) (dateAdded b) then 1 else - 1)"

definition cmp_status :: "string comparefn \<Rightarrow> game comparefn" where
  "cmp_status lc a b = lc (status_value (status a)) (status_value (status b))"

definition cmp_rating_high :: "game comparefn" where
  "cmp_rating_high a b = ratingOr0 b - ratingOr0 a"

definition cmp_rating_low :: "game comparefn" where
  "cmp_rating_low a b = ratingOr0 a - ratingOr0 b"

text \<open>
  \<open>Array.prototype.sort\<close>. The language fixes the outcome only for a consistent
  comparison function (then the result is the stable sort); for any other function the
  order is left to the engine. The model follows the engine of Chrome and Node (V8):
  \<open>CountAndMakeRun\<close> takes the longest run at the front, non-descending or strictly
  descending, and reverses a descending one; \<open>BinaryInsertionSort\<close> then inserts the
  remaining elements one by one by binary search. That is the whole algorithm for arrays of
  fewer than 64 elements; longer arrays are merged from such runs in V8, and are sorted here
  by the same insertion.
\<close>

fun runLength :: "bool \<Rightarrow> 'a comparefn \<Rightarrow> 'a \<Rightarrow> 'a list \<Rightarrow> nat" where
  "runLength isDescending cmp previousElement [] = 0"
| "runLength isDescending cmp previousElement (currentElement # rest) =
     (let order = cmp currentElement previousElement in
      if (if isDescending then order \<ge> 0 else order < 0) then 0
      else Suc (runLength isDescending cmp currentElement rest))"

definition CountAndMakeRun :: "'a comparefn \<Rightarrow> 'a list \<Rightarrow> 'a list \<times> 'a list" where
  "CountAndMakeRun cmp xs =
     (case xs of
        [] \<Rightarrow> ([], [])
      | [x] \<Rightarrow> ([x], [])
      | elementHigh # elementLow # rest \<Rightarrow>
          (let isDescending = (cmp elementLow elementHigh < 0);
               n = 2 + runLength isDescending cmp elementLow rest
           in (if isDescending then rev (take n xs) else take n xs, drop n xs)))"

function binarySearch :: "'a comparefn \<Rightarrow> 'a \<Rightarrow> 'a list \<Rightarrow> nat \<Rightarrow> nat \<Rightarrow> nat" where
  "binarySearch cmp pivot ws left right =
     (if left < right then
        (let mid = left + (right - left) div 2 in
         if cmp pivot (ws ! mid) < 0 then binarySearch cmp pivot ws left mid
         else binarySearch cmp pivot ws (mid + 1) right)
      else left)"
  by pat_completeness auto
termination
proof (relation "measure (\<lambda>(cmp, pivot, ws, left, right). right - left)")
  show "wf (measure (\<lambda>(cmp :: 'a comparefn, pivot :: 'a, ws :: 'a list, left :: nat, right :: nat). right - left))"
    by simp
next
  fix cmp :: "'a comparefn" and pivot :: 'a and ws :: "'a list" and left right mid :: nat
  assume "left < right" and "mid = left + (right - left) div 2"
  then show "((cmp, pivot, ws, left, mid), (cmp, pivot, ws, left, right))
      \<in> measure (\<lambda>(cmp, pivot, ws, left, right). right - left)"
    by simp
next
  fix cmp :: "'a comparefn" and pivot :: 'a and ws :: "'a list" and left right mid :: nat
  assume "left < right" and "mid = left + (right - left) div 2"
  then show "((cmp, pivot, ws, mid + 1, right), (cmp, pivot, ws, left, right))
      \<in> measure (\<lambda>(cmp, pivot, ws, left, right). right - left)"
    by simp
qed

declare binarySearch.simps [simp del]

definition insertPivot :: "'a comparefn \<Rightarrow> 'a list \<Rightarrow> 'a \<Rightarrow> 'a list" where
  "insertPivot cmp ws pivot =
     (let left = binarySearch cmp pivot ws 0 (length ws) in take left ws @ pivot # drop left ws)"

definition BinaryInsertionSort :: "'a comparefn \<Rightarrow> 'a list \<Rightarrow> 'a list \<Rightarrow> 'a list" where
  "BinaryInsertionSort cmp run rest = foldl (insertPivot cmp) run rest"

definition sort_array :: "'a comparefn \<Rightarrow> 'a list \<Rightarrow> 'a list" where
  "sort_array cmp xs =
     (if length xs < 2 then xs
      else case CountAndMakeRun cmp xs of (run, rest) \<Rightarrow> BinaryInsertionSort cmp run rest)"

text \<open>\<open>filteredGames\<close>: the filter, then the \<open>switch\<close> on the sort option.\<close>

definition filteredGames ::
  "string comparefn \<Rightarrow> game list \<Rightarrow> string \<Rightarrow> string list \<Rightarrow> string list \<Rightarrow> string list \<Rightarrow>
   string \<Rightarrow> game list" where
  "filteredGames lc gs searchTerm selectedPlatforms selectedGenres selectedStatus sortOption =
     (let result = filterStage gs searchTerm selectedPlatforms selectedGenres selectedStatus in
      if sortOption = ''title-az'' then sort_array (cmp_title_az lc) result
      else if sortOption = ''title-za'' then sort_array (cmp_title_za lc) result
      else if sortOption = ''date-oldest'' then sort_array cmp_date_oldest result
      else if sortOption = ''date-newest'' then sort_array cmp_date_newest result
      else if sortOption = ''status'' then sort_array (cmp_status lc) result
      else if sortOption = ''rating-high'' then sort_array cmp_rating_high result
      else if sortOption = ''rating-low'' then sort_array cmp_rating_low result
      else result)"






section \<open>Persistence adapter and metadata client\<close>

text \<open>
  Values decoded from JSON, and the exceptions of the program: \<open>Error\<close> is what the
  code itself throws with \<open>new Error(message)\<close>; the other constructors are the
  exceptions of the host (\<open>JSON.parse\<close>, \<open>fetch\<close>, property access).
\<close>

datatype jsval =
    JUndefined
  | JNull
  | JBool bool
  | JNum int
  | JStr string
  | JArr "jsval list"
  | JObj "(string \<times> jsval) list"

datatype exn =
    Error string
  | SyntaxError string
  | TypeError string
  | HostError string string


text \<open>
  \<open>loadGames\<close>. \<open>getItem\<close> is the outcome of \<open>localStorage.getItem(STORAGE_KEY)\<close>
  (an exception, \<open>null\<close>, or the blob); \<open>JSON_parse\<close> is the host's parser. The body of
  the \<open>try\<close> comes first, then the function with its \<open>catch\<close>.
\<close>

definition loadGames_try :: "(string \<Rightarrow> exn + jsval) \<Rightarrow> exn + string option \<Rightarrow> exn + jsval" where
  "loadGames_try JSON_parse getItem =
     (case getItem of
        Inl e \<Rightarrow> Inl e
      | Inr data \<Rightarrow>
          (case data of
             None \<Rightarrow> Inr (JArr [])
           | Some d \<Rightarrow> if d \<noteq> [] then JSON_parse d else Inr (JArr [])))"

definition loadGames :: "(string \<Rightarrow> exn + jsval) \<Rightarrow> exn + string option \<Rightarrow> exn + jsval" where
  "loadGames JSON_parse getItem =
     (case loadGames_try JSON_parse getItem of
        Inl e \<Rightarrow> Inr (JArr [])
      | Inr v \<Rightarrow> Inr v)"










section \<open>Specification-level predicates\<close>


text \<open>
  A consistent comparison function: it answers 0 on equal arguments, its sign flips when the
  arguments are swapped, and "not after" is transitive. It then orders the classes of
  elements that compare as equal, which is what the language asks of the argument of
  \<open>sort\<close> before it promises a stable sort.
\<close>

definition consistent :: "'a comparefn \<Rightarrow> bool" where
  "consistent cmp \<longleftrightarrow>
     (\<forall>a. cmp a a = 0) \<and>
     (\<forall>a b. cmp a b < 0 \<longleftrightarrow> 0 < cmp b a) \<and>
     (\<forall>a b c. cmp a b \<le> 0 \<and> cmp b c \<le> 0 \<longrightarrow> cmp a c \<le> 0)"




section \<open>Example data\<close>

text \<open>
  Concrete values on which the theorems are instantiated: an empty and a two-game
  application state, drafts, a collation by character codes in the place of
  \<open>localeCompare\<close>, and stand-ins for the host's parser on a few blobs.
\<close>

definition emptyApp :: app where
  "emptyApp = \<lparr>games = [], storage = None, selectedGame = None, showAddForm = True\<rparr>"

definition exampleDraft :: "string \<Rightarrow> game_draft" where
  "exampleDraft t = \<lparr>d_title = t, d_platforms = [], d_genres = [], d_coverUrl = Some [],
     d_releaseDate = Some [], d_description = Some [], d_status = WantToPlay, d_rating = None,
     d_notes = Some [], d_dateCompleted = None, d_rawgId = None, d_metacriticScore = None\<rparr>"

definition exampleGame :: "string \<Rightarrow> string \<Rightarrow> status \<Rightarrow> string \<Rightarrow> string option \<Rightarrow> game" where
  "exampleGame i t s d c = \<lparr>id' = i, title = t, platforms = [], genres = [], coverUrl = None,
     releaseDate = None, description = None, status = s, rating = None, notes' = None,
     dateAdded = d, dateCompleted = c, rawgId = None, metacriticScore = None\<rparr>"

definition hades :: game where
  "hades = exampleGame ''1'' ''Hades'' Completed ''2024-01-01'' (Some ''2024-01-15'')"

definition celeste :: game where
  "celeste = exampleGame ''2'' ''Celeste'' Playing ''2024-02-01'' None"

definition hollow :: game where
  "hollow = exampleGame ''3'' ''Hollow Knight'' WantToPlay ''2024-02-01'' None"

definition exampleApp :: app where
  "exampleApp = \<lparr>games = [hades, celeste], storage = Some [hades, celeste],
     selectedGame = None, showAddForm = False\<rparr>"

definition codeUnitCompare :: "string comparefn" where
  "codeUnitCompare a b = (if str_less a b then - 1 else if str_less b a then 1 else 0)"

definition exampleParse :: "string \<Rightarrow> exn + jsval" where
  "exampleParse s =
     (if s = ''[]'' then Inr (JArr [])
      else if s = ''[{}]'' then Inr (JArr [JObj []])
      else Inl (SyntaxError ''Unexpected token''))"




section \<open>Basic facts\<close>

lemma games_setGames: "games (setGames f st) = f (games st)"
  by (simp add: setGames_def saveGames_def)

lemma games_updateGame:
  "games (updateGame gameId updates st) =
     map (\<lambda>game. if id' game = gameId then spread game updates else game) (games st)"
  by (simp add: updateGame_def games_setGames)

lemma games_addGame: "games (addGame now today gameData st) = games st @ [newGame now today gameData]"
  by (simp add: addGame_def games_setGames)

lemma id_newGame: "id' (newGame now today gameData) = toString now"
  by (simp add: newGame_def)

lemma ids_addGame:
  "map id' (games (addGame now today gameData st)) = map id' (games st) @ [toString now]"
  by (simp add: games_addGame id_newGame)

lemma digitsValue_snoc: "digitsValue (s @ [c]) = 10 * digitsValue s + (of_char c - 48)"
  by (simp add: digitsValue_def)

lemma of_char_digitChar: "d < 10 \<Longrightarrow> of_char (digitChar d) = 48 + d"
proof -
  assume "d < 10"
  then have "d \<in> {0, 1, 2, 3, 4, 5, 6, 7, 8, 9}" by auto
  then show ?thesis by (auto simp add: digitChar_def)
qed

lemma digitsValue_toString: "digitsValue (toString n) = n"
proof (induction n rule: toString.induct)
  case (1 n)
  show ?case
  proof (cases "n < 10")
    case True
    then have "toString n = [digitChar n]" by (subst toString.simps) simp
    with True show ?thesis by (simp add: digitsValue_def of_char_digitChar)
  next
    case False
    then have "toString n = toString (n div 10) @ [digitChar (n mod 10)]"
      by (subst toString.simps) simp
    moreover have "of_char (digitChar (n mod 10)) = 48 + n mod 10"
      by (simp add: of_char_digitChar)
    ultimately show ?thesis using 1 [OF False] by (simp add: digitsValue_snoc)
  qed
qed

lemma toString_inject: "toString a = toString b \<longleftrightarrow> a = b"
  by (metis digitsValue_toString)







section \<open>Catalog store\<close>

text \<open>
  C9. \<open>updateGame\<close> keeps the length of the collection and every game whose id is not the
  target at its position, so the order is kept too; when no game has the target id the
  collection is unchanged. The selection and the add-form flag are not touched.
\<close>

theorem updateGame_frame:
  "length (games (updateGame gameId updates st)) = length (games st) \<and>
   (\<forall>i < length (games st). id' (games st ! i) \<noteq> gameId \<longrightarrow>
        games (updateGame gameId updates st) ! i = games st ! i) \<and>
   ((\<forall>g \<in> set (games st). id' g \<noteq> gameId) \<longrightarrow>
        games (updateGame gameId updates st) = games st) \<and>
   selectedGame (updateGame gameId updates st) = selectedGame st \<and>
   showAddForm (updateGame gameId updates st) = showAddForm st"
proof -
  have "map (\<lambda>game. if id' game = gameId then spread game updates else game) (games st) = games st"
    if "\<forall>g \<in> set (games st). id' g \<noteq> gameId"
    using that by (induction "games st") (simp_all add: map_idI)
  then show ?thesis
    by (simp add: games_updateGame) (simp add: updateGame_def setGames_def saveGames_def)
qed

theorem updateGame_frame_witness:
  "games (updateGame ''2'' (no_updates\<lparr>p_status := Some Dropped\<rparr>) exampleApp) ! 0 = hades \<and>
   games (updateGame ''7'' (no_updates\<lparr>p_status := Some Dropped\<rparr>) exampleApp) = [hades, celeste]"
proof -
  have a: "(0::nat) < length (games exampleApp)" and b: "id' (games exampleApp ! 0) \<noteq> ''2''"
    and c: "\<forall>g \<in> set (games exampleApp). id' g \<noteq> ''7''"
    by (simp_all add: exampleApp_def hades_def celeste_def exampleGame_def)
  from updateGame_frame [of "''2''" "no_updates\<lparr>p_status := Some Dropped\<rparr>" exampleApp] a b
  have "games (updateGame ''2'' (no_updates\<lparr>p_status := Some Dropped\<rparr>) exampleApp) ! 0
      = games exampleApp ! 0" by blast
  moreover from updateGame_frame [of "''7''" "no_updates\<lparr>p_status := Some Dropped\<rparr>" exampleApp] c
  have "games (updateGame ''7'' (no_updates\<lparr>p_status := Some Dropped\<rparr>) exampleApp)
      = games exampleApp" by blast
  ultimately show ?thesis by (simp add: exampleApp_def)
qed

text \<open>
  C2. The id of a new game is the decimal string of the clock reading, and nothing compares
  it with the ids already stored: two adds at the same reading give two games with the same
  id.
\<close>

theorem addGame_same_clock_counterexample:
  "\<not> distinct (map id' (games (addGame 1700000000000 ''2024-01-01'' (exampleDraft ''Celeste'')
       (addGame 1700000000000 ''2024-01-01'' (exampleDraft ''Hades'') emptyApp))))"
  by (simp add: ids_addGame emptyApp_def)

lemma addGame_keeps_distinct:
  assumes "distinct (map id' (games st))" and "toString now \<notin> set (map id' (games st))"
  shows "distinct (map id' (games (addGame now today gameData st)))"
  using assms by (simp add: ids_addGame)

text \<open>
  C2, as the code has it: starting from a collection with pairwise distinct ids, a run of
  adds made at pairwise distinct clock readings, none of which is already an id as a
  decimal string, leaves the ids pairwise distinct.
\<close>

theorem addAll_distinct_ids:
  "distinct (map id' (games st)) \<Longrightarrow> distinct (map fst ops) \<Longrightarrow>
   (\<forall>op \<in> set ops. toString (fst op) \<notin> set (map id' (games st))) \<Longrightarrow>
   distinct (map id' (games (addAll ops st)))"
proof (induction ops arbitrary: st)
  case Nil
  then show ?case by simp
next
  case (Cons op ops)
  obtain now today gameData where op: "op = (now, today, gameData)"
    by (cases op) auto
  let ?st = "addGame now today gameData st"
  have fresh: "toString now \<notin> set (map id' (games st))"
    using Cons.prems(3) op by simp
  have d: "distinct (map id' (games ?st))"
    using Cons.prems(1) fresh by (rule addGame_keeps_distinct)
  have later: "\<forall>op' \<in> set ops. toString (fst op') \<notin> set (map id' (games ?st))"
  proof
    fix op' assume m: "op' \<in> set ops"
    then have "fst op' \<noteq> now" using Cons.prems(2) op by auto
    then have "toString (fst op') \<noteq> toString now" by (simp add: toString_inject)
    moreover have "toString (fst op') \<notin> set (map id' (games st))"
      using Cons.prems(3) m by simp
    ultimately show "toString (fst op') \<notin> set (map id' (games ?st))"
      by (simp add: ids_addGame)
  qed
  have "distinct (map fst ops)" using Cons.prems(2) by simp
  from Cons.IH [OF d this later] show ?case by (simp add: op)
qed

theorem addAll_distinct_ids_witness:
  "map id' (games (addAll [(1700000000000, ''2024-01-01'', exampleDraft ''Hades''),
                           (1700000000001, ''2024-01-01'', exampleDraft ''Celeste'')] emptyApp))
     = [''1700000000000'', ''1700000000001''] \<and>
   distinct (map id' (games (addAll [(1700000000000, ''2024-01-01'', exampleDraft ''Hades''),
                           (1700000000001, ''2024-01-01'', exampleDraft ''Celeste'')] emptyApp)))"
proof -
  let ?ops = "[(1700000000000 :: nat, ''2024-01-01'', exampleDraft ''Hades''),
               (1700000000001, ''2024-01-01'', exampleDraft ''Celeste'')]"
  have a: "distinct (map id' (games emptyApp))"
    and c: "\<forall>op \<in> set ?ops. toString (fst op) \<notin> set (map id' (games emptyApp))"
    by (simp_all add: emptyApp_def)
  have b: "distinct (map fst ?ops)" by simp
  have t0: "toString 1700000000000 = ''1700000000000''"
    by (simp add: toString.simps digitChar_def)
  have t1: "toString 1700000000001 = ''1700000000001''"
    by (simp add: toString.simps digitChar_def)
  have "map id' (games (addAll ?ops emptyApp)) = [''1700000000000'', ''1700000000001'']"
    by (simp add: ids_addGame emptyApp_def t0 t1)
  with addAll_distinct_ids [OF a b c] show ?thesis by simp
qed




text \<open>
  The status rule of the detail dialog: the new status is stored; \<open>dateCompleted\<close>
  is cleared for a status other than \<open>completed\<close>, set to the current date when the
  dialog's game was not completed, and left alone otherwise.
\<close>

lemma statusChangeUpdates_spread:
  "status (spread g (statusChangeUpdates today game st')) = st' \<and>
   dateCompleted (spread g (statusChangeUpdates today game st')) =
     (if st' \<noteq> Completed then None
      else if status game \<noteq> Completed then Some today
      else dateCompleted g)"
  by (simp add: statusChangeUpdates_def spread_def override_def no_updates_def Let_def)

text \<open>
  The dialog keeps the game it was opened with: \<open>updateGame\<close> does not refresh
  \<open>selectedGame\<close>. Opened on a completed game, a change to \<open>playing\<close> clears the date,
  and the change back to \<open>completed\<close> is compared with the status the dialog was opened
  with, so no date is set.
\<close>

lemma handleStatusChange_stale_snapshot:
  "map (\<lambda>g. (title g, status g, dateCompleted g))
     (games (handleStatusChange ''2024-03-01'' Playing (exampleApp\<lparr>selectedGame := Some hades\<rparr>)))
     = [(''Hades'', Playing, None), (''Celeste'', Playing, None)] \<and>
   map (\<lambda>g. (title g, status g, dateCompleted g))
     (games (handleStatusChange ''2024-03-02'' Completed
        (handleStatusChange ''2024-03-01'' Playing (exampleApp\<lparr>selectedGame := Some hades\<rparr>))))
     = [(''Hades'', Completed, None), (''Celeste'', Playing, None)]"
  by (simp add: handleStatusChange_def statusChangeUpdates_def updateGame_def setGames_def
      saveGames_def exampleApp_def hades_def celeste_def exampleGame_def spread_def override_def
      no_updates_def)

text \<open>
  C1. The status selector of a card changes the status through \<open>updateGame\<close> with the
  status alone: a game that becomes completed gets no \<open>dateCompleted\<close>, and a completed
  game that becomes playing keeps the one it had.
\<close>

theorem onStatusChange_leaves_dateCompleted:
  "map (\<lambda>g. (title g, status g, dateCompleted g)) (games (onStatusChange celeste Completed exampleApp))
     = [(''Hades'', Completed, Some ''2024-01-15''), (''Celeste'', Completed, None)] \<and>
   map (\<lambda>g. (title g, status g, dateCompleted g)) (games (onStatusChange hades Playing exampleApp))
     = [(''Hades'', Playing, Some ''2024-01-15''), (''Celeste'', Playing, None)]"
  by (simp add: onStatusChange_def games_updateGame exampleApp_def hades_def celeste_def
      exampleGame_def spread_def override_def no_updates_def)


section \<open>Query engine\<close>

lemma mset_take_drop: "mset (take n xs) + mset (drop n xs) = mset xs"
  by (metis append_take_drop_id mset_append)

lemma mset_insertPivot: "mset (insertPivot cmp ws pivot) = add_mset pivot (mset ws)"
  by (simp add: insertPivot_def Let_def mset_take_drop)

lemma mset_BinaryInsertionSort: "mset (BinaryInsertionSort cmp run rest) = mset run + mset rest"
  unfolding BinaryInsertionSort_def
  by (induction rest arbitrary: run) (simp_all add: mset_insertPivot)

lemma mset_CountAndMakeRun:
  "CountAndMakeRun cmp xs = (run, rest) \<Longrightarrow> mset run + mset rest = mset xs"
  by (auto simp add: CountAndMakeRun_def Let_def mset_take_drop split: list.splits if_splits)

lemma mset_sort_array: "mset (sort_array cmp xs) = mset xs"
proof (cases "length xs < 2")
  case True
  then show ?thesis by (simp add: sort_array_def)
next
  case False
  obtain run rest where r: "CountAndMakeRun cmp xs = (run, rest)"
    by (cases "CountAndMakeRun cmp xs") auto
  with False show ?thesis
    by (simp add: sort_array_def mset_BinaryInsertionSort mset_CountAndMakeRun)
qed






text \<open>
  C10. The filtered list is a subsequence of the catalog: games are only dropped, never
  reordered or repeated, and with pairwise distinct ids in the catalog no game appears
  twice.
\<close>

theorem filterStage_subseq:
  "subseq (filterStage gs searchTerm sp sg ss) gs \<and>
   (\<forall>g. count_list (filterStage gs searchTerm sp sg ss) g \<le> count_list gs g) \<and>
   (distinct (map id' gs) \<longrightarrow> distinct (map id' (filterStage gs searchTerm sp sg ss)))"
proof -
  have "count_list (filter P xs) g \<le> count_list xs g" for P and xs :: "game list" and g
    by (induction xs) auto
  then show ?thesis
    by (simp add: filterStage_def distinct_map_filter)
qed

theorem filterStage_subseq_witness:
  "filterStage [hades, celeste, hollow] [] [] [] [''want-to-play'', ''completed''] = [hades, hollow] \<and>
   subseq [hades, hollow] [hades, celeste, hollow] \<and>
   distinct (map id' [hades, hollow])"
proof -
  have e: "filterStage [hades, celeste, hollow] [] [] [] [''want-to-play'', ''completed'']
      = [hades, hollow]"
    by code_simp
  have d: "distinct (map id' [hades, celeste, hollow])"
    by (simp add: hades_def celeste_def hollow_def exampleGame_def)
  from filterStage_subseq
    [of "[hades, celeste, hollow]" "[]" "[]" "[]" "[''want-to-play'', ''completed'']"] d
  have "subseq (filterStage [hades, celeste, hollow] [] [] [] [''want-to-play'', ''completed''])
          [hades, celeste, hollow] \<and>
        distinct (map id' (filterStage [hades, celeste, hollow] [] [] []
          [''want-to-play'', ''completed'']))"
    by blast
  with e show ?thesis by simp
qed

text \<open>
  The two date comparison functions never answer 0: for two games added on the same date
  each is reported to come before the other, so they are not consistent comparison
  functions and the order of such games is left to the engine. The title, status and
  rating functions answer 0 on equal keys.
\<close>

lemma str_less_irrefl: "\<not> str_less s s"
  by (induction s) simp_all

lemma cmp_date_ties:
  "dateAdded a = dateAdded b \<Longrightarrow>
   cmp_date_newest a b < 0 \<and> cmp_date_newest b a < 0 \<and>
   cmp_date_oldest a b < 0 \<and> cmp_date_oldest b a < 0"
  by (simp add: cmp_date_newest_def cmp_date_oldest_def str_less_irrefl)

lemma cmp_rating_ties:
  "ratingOr0 a = ratingOr0 b \<Longrightarrow> cmp_rating_high a b = 0 \<and> cmp_rating_low a b = 0"
  by (simp add: cmp_rating_high_def cmp_rating_low_def)

text \<open>
  For a consistent comparison function \<open>sort_array\<close> is the stable sort: the result is
  ordered and, within every class of elements that compare as equal, the elements keep the
  order they had. The proof follows the algorithm: the binary search finds the end of the
  elements that are not after the pivot, an insertion there keeps order and classes, and
  the first run is ordered already, a strictly descending one after its reversal.
\<close>

lemma consistent_ge:
  assumes "consistent cmp" and "\<not> cmp a b < 0"
  shows "cmp b a \<le> 0"
proof -
  from assms(1) have "cmp a b < 0 \<longleftrightarrow> 0 < cmp b a"
    unfolding consistent_def by blast
  with assms(2) have "\<not> 0 < cmp b a" by blast
  then show ?thesis by (simp only: not_less)
qed

lemma consistent_le_ge:
  assumes "consistent cmp" and "cmp a b \<le> 0"
  shows "\<not> cmp b a < 0"
proof -
  from assms(1) have "cmp b a < 0 \<longleftrightarrow> 0 < cmp a b"
    unfolding consistent_def by blast
  moreover from assms(2) have "\<not> 0 < cmp a b" by (simp only: not_less)
  ultimately show ?thesis by blast
qed

lemma consistent_trans:
  "consistent cmp \<Longrightarrow> cmp a b \<le> 0 \<Longrightarrow> cmp b c \<le> 0 \<Longrightarrow> cmp a c \<le> 0"
  unfolding consistent_def by blast

lemma consistent_less_imp_le:
  assumes "consistent cmp" and "cmp a b < 0"
  shows "cmp a b \<le> 0"
  using assms(2) by (rule less_imp_le)

lemma consistent_less_le:
  assumes "consistent cmp" and "cmp a b < 0" and "cmp b c \<le> 0"
  shows "cmp a c < 0"
proof (rule ccontr)
  assume "\<not> cmp a c < 0"
  with assms(1) have "cmp c a \<le> 0" by (rule consistent_ge)
  with assms(1,3) have "cmp b a \<le> 0" by (rule consistent_trans)
  with assms(1) have "\<not> cmp a b < 0" by (rule consistent_le_ge)
  with assms(2) show False by blast
qed

lemma consistent_le_less:
  assumes "consistent cmp" and "cmp a b \<le> 0" and "cmp b c < 0"
  shows "cmp a c < 0"
proof (rule ccontr)
  assume "\<not> cmp a c < 0"
  with assms(1) have "cmp c a \<le> 0" by (rule consistent_ge)
  from assms(1) this assms(2) have "cmp c b \<le> 0" by (rule consistent_trans)
  with assms(1) have "\<not> cmp b c < 0" by (rule consistent_le_ge)
  with assms(3) show False by blast
qed

lemma consistent_equiv_not_less:
  assumes "consistent cmp" and "cmp a k = 0" and "cmp b k = 0"
  shows "\<not> cmp a b < 0"
proof -
  have "\<not> cmp a k < 0" using assms(2) by (simp only: less_irrefl not_False_eq_True)
  with assms(1) have ka: "cmp k a \<le> 0" by (rule consistent_ge)
  have bk: "cmp b k \<le> 0" using assms(3) by (simp only: order_refl)
  from assms(1) bk ka have "cmp b a \<le> 0" by (rule consistent_trans)
  with assms(1) show ?thesis by (rule consistent_le_ge)
qed

lemma binarySearch_bounds:
  assumes mono: "\<forall>i j. i \<le> j \<and> j < length ws \<and> cmp pivot (ws ! i) < 0 \<longrightarrow> cmp pivot (ws ! j) < 0"
    and "left \<le> right" and "right \<le> length ws"
    and "\<forall>i<left. \<not> cmp pivot (ws ! i) < 0"
    and "\<forall>i. right \<le> i \<and> i < length ws \<longrightarrow> cmp pivot (ws ! i) < 0"
  shows "binarySearch cmp pivot ws left right \<le> length ws \<and>
         (\<forall>i < binarySearch cmp pivot ws left right. \<not> cmp pivot (ws ! i) < 0) \<and>
         (\<forall>i. binarySearch cmp pivot ws left right \<le> i \<and> i < length ws \<longrightarrow> cmp pivot (ws ! i) < 0)"
  using assms
proof (induction cmp pivot ws left right rule: binarySearch.induct)
  case (1 cmp pivot ws left right)
  show ?case
  proof (cases "left < right")
    case False
    then have "binarySearch cmp pivot ws left right = left"
      by (subst binarySearch.simps) simp
    moreover have "left = right" using False "1.prems"(2) by simp
    ultimately show ?thesis using "1.prems" by simp
  next
    case True
    define mid where "mid = left + (right - left) div 2"
    have m: "left \<le> mid" "mid < right" using True by (simp_all add: mid_def)
    show ?thesis
    proof (cases "cmp pivot (ws ! mid) < 0")
      case L: True
      have eq: "binarySearch cmp pivot ws left right = binarySearch cmp pivot ws left mid"
        using True L by (subst binarySearch.simps) (simp add: mid_def Let_def)
      have up: "\<forall>i. mid \<le> i \<and> i < length ws \<longrightarrow> cmp pivot (ws ! i) < 0"
        using "1.prems"(1) L by blast
      have "mid \<le> length ws" using m "1.prems"(3) by simp
      from "1.IH"(1) [OF True mid_def L "1.prems"(1) m(1) this "1.prems"(4) up]
      show ?thesis unfolding eq .
    next
      case G: False
      have eq: "binarySearch cmp pivot ws left right = binarySearch cmp pivot ws (mid + 1) right"
        using True G by (subst binarySearch.simps) (simp add: mid_def Let_def)
      have lo: "\<forall>i<mid + 1. \<not> cmp pivot (ws ! i) < 0"
      proof (intro allI impI)
        fix i assume "i < mid + 1"
        then have "i \<le> mid" by simp
        moreover have "mid < length ws" using m "1.prems"(3) by simp
        ultimately show "\<not> cmp pivot (ws ! i) < 0" using "1.prems"(1) G by blast
      qed
      have "mid + 1 \<le> right" using m by simp
      from "1.IH"(2) [OF True mid_def G "1.prems"(1) this "1.prems"(3) lo "1.prems"(5)]
      show ?thesis unfolding eq .
    qed
  qed
qed

lemma sorted_mono_less:
  assumes c: "consistent cmp" and s: "sorted_wrt (\<lambda>a b. cmp a b \<le> 0) ws"
  shows "\<forall>i j. i \<le> j \<and> j < length ws \<and> cmp pivot (ws ! i) < 0 \<longrightarrow> cmp pivot (ws ! j) < 0"
proof (intro allI impI)
  fix i j
  assume h: "i \<le> j \<and> j < length ws \<and> cmp pivot (ws ! i) < 0"
  show "cmp pivot (ws ! j) < 0"
  proof (cases "i = j")
    case True
    with h show ?thesis by blast
  next
    case False
    with h have "i < j" "j < length ws" by simp_all
    with s have "cmp (ws ! i) (ws ! j) \<le> 0" by (rule sorted_wrt_nth_less)
    with c h show ?thesis using consistent_less_le [of cmp pivot "ws ! i" "ws ! j"] by blast
  qed
qed

lemma binarySearch_split:
  assumes c: "consistent cmp" and s: "sorted_wrt (\<lambda>a b. cmp a b \<le> 0) ws"
  shows "(\<forall>w \<in> set (take (binarySearch cmp pivot ws 0 (length ws)) ws). cmp w pivot \<le> 0) \<and>
         (\<forall>w \<in> set (drop (binarySearch cmp pivot ws 0 (length ws)) ws). cmp pivot w < 0)"
proof -
  let ?k = "binarySearch cmp pivot ws 0 (length ws)"
  have b: "?k \<le> length ws \<and> (\<forall>i < ?k. \<not> cmp pivot (ws ! i) < 0) \<and>
         (\<forall>i. ?k \<le> i \<and> i < length ws \<longrightarrow> cmp pivot (ws ! i) < 0)"
    by (rule binarySearch_bounds [OF sorted_mono_less [OF c s]]) simp_all
  have "cmp w pivot \<le> 0" if "w \<in> set (take ?k ws)" for w
  proof -
    from that obtain i where "i < length (take ?k ws)" "w = take ?k ws ! i"
      by (auto simp add: in_set_conv_nth)
    then have "i < ?k" "w = ws ! i" by simp_all
    with b have "\<not> cmp pivot w < 0" by blast
    with c show ?thesis by (rule consistent_ge)
  qed
  moreover have "cmp pivot w < 0" if "w \<in> set (drop ?k ws)" for w
  proof -
    from that obtain i where "i < length (drop ?k ws)" "w = drop ?k ws ! i"
      by (auto simp add: in_set_conv_nth)
    then have "?k \<le> ?k + i \<and> ?k + i < length ws" "w = ws ! (?k + i)" using b by auto
    with b show ?thesis by blast
  qed
  ultimately show ?thesis by blast
qed

lemma sorted_insertPivot:
  assumes c: "consistent cmp" and s: "sorted_wrt (\<lambda>a b. cmp a b \<le> 0) ws"
  shows "sorted_wrt (\<lambda>a b. cmp a b \<le> 0) (insertPivot cmp ws pivot)"
proof -
  let ?k = "binarySearch cmp pivot ws 0 (length ws)"
  let ?le = "\<lambda>a b. cmp a b \<le> 0"
  have sp: "(\<forall>w \<in> set (take ?k ws). cmp w pivot \<le> 0) \<and> (\<forall>w \<in> set (drop ?k ws). cmp pivot w < 0)"
    using c s by (rule binarySearch_split)
  have "sorted_wrt ?le (take ?k ws @ drop ?k ws)" using s by simp
  then have parts: "sorted_wrt ?le (take ?k ws) \<and> sorted_wrt ?le (drop ?k ws) \<and>
    (\<forall>x \<in> set (take ?k ws). \<forall>y \<in> set (drop ?k ws). cmp x y \<le> 0)"
    unfolding sorted_wrt_append .
  have after: "\<forall>w \<in> set (drop ?k ws). cmp pivot w \<le> 0"
    using sp by (blast intro: less_imp_le)
  have "sorted_wrt ?le (take ?k ws @ pivot # drop ?k ws)"
    unfolding sorted_wrt_append sorted_wrt.simps set_simps
    using parts after sp by blast
  then show ?thesis by (simp only: insertPivot_def Let_def)
qed

lemma filter_insertPivot:
  assumes c: "consistent cmp" and s: "sorted_wrt (\<lambda>a b. cmp a b \<le> 0) ws"
  shows "filter (\<lambda>x. cmp x key = 0) (insertPivot cmp ws pivot)
       = filter (\<lambda>x. cmp x key = 0) (ws @ [pivot])"
proof -
  let ?k = "binarySearch cmp pivot ws 0 (length ws)"
  let ?Q = "\<lambda>x. cmp x key = 0"
  have sp: "\<forall>w \<in> set (drop ?k ws). cmp pivot w < 0"
    using binarySearch_split [OF c s] by blast
  have ws: "filter ?Q ws = filter ?Q (take ?k ws) @ filter ?Q (drop ?k ws)"
    by (metis append_take_drop_id filter_append)
  show ?thesis
  proof (cases "cmp pivot key = 0")
    case True
    have "\<not> ?Q w" if "w \<in> set (drop ?k ws)" for w
    proof
      assume "cmp w key = 0"
      with c True have "\<not> cmp pivot w < 0" by (rule consistent_equiv_not_less)
      with sp that show False by blast
    qed
    then have "filter ?Q (drop ?k ws) = []" by (simp only: filter_empty_conv) blast
    with True ws show ?thesis by (simp add: insertPivot_def Let_def)
  next
    case False
    with ws show ?thesis by (simp add: insertPivot_def Let_def)
  qed
qed

lemma BinaryInsertionSort_stable:
  assumes c: "consistent cmp"
  shows "sorted_wrt (\<lambda>a b. cmp a b \<le> 0) run \<Longrightarrow>
         sorted_wrt (\<lambda>a b. cmp a b \<le> 0) (BinaryInsertionSort cmp run rest) \<and>
         filter (\<lambda>x. cmp x key = 0) (BinaryInsertionSort cmp run rest)
           = filter (\<lambda>x. cmp x key = 0) (run @ rest)"
proof (induction rest arbitrary: run)
  case Nil
  then show ?case by (simp add: BinaryInsertionSort_def)
next
  case (Cons pivot rest)
  have s: "sorted_wrt (\<lambda>a b. cmp a b \<le> 0) (insertPivot cmp run pivot)"
    using c Cons.prems by (rule sorted_insertPivot)
  have f: "filter (\<lambda>x. cmp x key = 0) (insertPivot cmp run pivot)
       = filter (\<lambda>x. cmp x key = 0) (run @ [pivot])"
    using c Cons.prems by (rule filter_insertPivot)
  have u: "BinaryInsertionSort cmp run (pivot # rest)
       = BinaryInsertionSort cmp (insertPivot cmp run pivot) rest"
    by (simp add: BinaryInsertionSort_def)
  from Cons.IH [OF s] f show ?case unfolding u by simp
qed

lemma runLength_ascending:
  assumes c: "consistent cmp"
  shows "sorted_wrt (\<lambda>a b. cmp a b \<le> 0) (prev # take (runLength False cmp prev rest) rest)"
proof (induction rest arbitrary: prev)
  case Nil
  show ?case by simp
next
  case (Cons cur rest)
  show ?case
  proof (cases "cmp cur prev < 0")
    case True
    then show ?thesis by simp
  next
    case False
    with c have pc: "cmp prev cur \<le> 0" by (rule consistent_ge)
    have ih: "sorted_wrt (\<lambda>a b. cmp a b \<le> 0) (cur # take (runLength False cmp cur rest) rest)"
      by (rule Cons.IH)
    have "cmp prev y \<le> 0" if "y \<in> set (take (runLength False cmp cur rest) rest)" for y
    proof -
      from ih that have "cmp cur y \<le> 0" by simp
      with c pc show ?thesis by (rule consistent_trans)
    qed
    with pc ih False show ?thesis by simp
  qed
qed

lemma runLength_descending:
  assumes c: "consistent cmp"
  shows "sorted_wrt (\<lambda>a b. cmp b a < 0) (prev # take (runLength True cmp prev rest) rest)"
proof (induction rest arbitrary: prev)
  case Nil
  show ?case by simp
next
  case (Cons cur rest)
  show ?case
  proof (cases "cmp cur prev < 0")
    case False
    then show ?thesis by simp
  next
    case True
    have ih: "sorted_wrt (\<lambda>a b. cmp b a < 0) (cur # take (runLength True cmp cur rest) rest)"
      by (rule Cons.IH)
    have "cmp y prev < 0" if "y \<in> set (take (runLength True cmp cur rest) rest)" for y
    proof -
      from ih that have "cmp y cur < 0" by simp
      moreover from True have "cmp cur prev \<le> 0" by (rule less_imp_le)
      ultimately show ?thesis using c consistent_less_le [of cmp y cur prev] by blast
    qed
    with True ih show ?thesis by simp
  qed
qed

lemma filter_rev_descending:
  assumes c: "consistent cmp" and s: "sorted_wrt (\<lambda>a b. cmp b a < 0) xs"
  shows "filter (\<lambda>x. cmp x key = 0) (rev xs) = filter (\<lambda>x. cmp x key = 0) xs"
proof -
  let ?Q = "\<lambda>x. cmp x key = 0"
  have "length (filter ?Q xs) \<le> 1" using s
  proof (induction xs)
    case Nil
    show ?case by simp
  next
    case (Cons x xs)
    then have ih: "length (filter ?Q xs) \<le> 1" by simp
    show ?case
    proof (cases "?Q x")
      case False
      with ih show ?thesis by simp
    next
      case True
      have "\<not> ?Q y" if "y \<in> set xs" for y
      proof
        assume "cmp y key = 0"
        from c this True have "\<not> cmp y x < 0" by (rule consistent_equiv_not_less)
        moreover from Cons.prems that have "cmp y x < 0" by simp
        ultimately show False by blast
      qed
      then have "filter ?Q xs = []" by (simp only: filter_empty_conv) blast
      with True show ?thesis by simp
    qed
  qed
  then have "rev (filter ?Q xs) = filter ?Q xs"
    by (cases "filter ?Q xs") (simp_all add: length_Suc_conv)
  then show ?thesis by (simp only: rev_filter)
qed

lemma CountAndMakeRun_run:
  "CountAndMakeRun cmp (x0 # x1 # zs) =
     (let n = Suc (runLength (cmp x1 x0 < 0) cmp x0 (x1 # zs)) in
      (if cmp x1 x0 < 0 then rev (take n (x0 # x1 # zs)) else take n (x0 # x1 # zs),
       drop n (x0 # x1 # zs)))"
  by (simp add: CountAndMakeRun_def Let_def)

lemma CountAndMakeRun_stable:
  assumes c: "consistent cmp" and r: "CountAndMakeRun cmp xs = (run, rest)"
  shows "sorted_wrt (\<lambda>a b. cmp a b \<le> 0) run \<and>
         filter (\<lambda>x. cmp x key = 0) (run @ rest) = filter (\<lambda>x. cmp x key = 0) xs"
proof (cases xs)
  case Nil
  with r show ?thesis by (auto simp add: CountAndMakeRun_def)
next
  case (Cons x0 ys)
  show ?thesis
  proof (cases ys)
    case Nil
    with \<open>xs = x0 # ys\<close> r show ?thesis by (auto simp add: CountAndMakeRun_def)
  next
    case (Cons x1 zs)
    let ?n = "Suc (runLength (cmp x1 x0 < 0) cmp x0 (x1 # zs))"
    have xs: "xs = x0 # x1 # zs" using \<open>xs = x0 # ys\<close> Cons by simp
    have td: "filter (\<lambda>x. cmp x key = 0) (take ?n xs) @ filter (\<lambda>x. cmp x key = 0) (drop ?n xs)
        = filter (\<lambda>x. cmp x key = 0) xs"
      by (metis append_take_drop_id filter_append)
    have t: "take ?n xs = x0 # take (runLength (cmp x1 x0 < 0) cmp x0 (x1 # zs)) (x1 # zs)"
      unfolding xs by simp
    show ?thesis
    proof (cases "cmp x1 x0 < 0")
      case True
      then have run: "run = rev (take ?n xs)" and rest: "rest = drop ?n xs"
        using r unfolding xs CountAndMakeRun_run by (simp_all add: Let_def)
      have d: "sorted_wrt (\<lambda>a b. cmp b a < 0) (take ?n xs)"
        unfolding t using True runLength_descending [OF c, of x0 "x1 # zs"] by simp
      then have "sorted_wrt (\<lambda>a b. cmp a b < 0) (rev (take ?n xs))"
        by (simp only: sorted_wrt_rev)
      then have "sorted_wrt (\<lambda>a b. cmp a b \<le> 0) (rev (take ?n xs))"
        by (rule sorted_wrt_mono_rel [rotated]) (rule less_imp_le)
      moreover have "filter (\<lambda>x. cmp x key = 0) (rev (take ?n xs))
          = filter (\<lambda>x. cmp x key = 0) (take ?n xs)"
        using c d by (rule filter_rev_descending)
      ultimately show ?thesis using td by (simp add: run rest)
    next
      case False
      then have run: "run = take ?n xs" and rest: "rest = drop ?n xs"
        using r unfolding xs CountAndMakeRun_run by (simp_all add: Let_def)
      have "sorted_wrt (\<lambda>a b. cmp a b \<le> 0) (take ?n xs)"
        unfolding t using False runLength_ascending [OF c, of x0 "x1 # zs"] by simp
      then show ?thesis using td by (simp add: run rest)
    qed
  qed
qed

lemma sort_array_stable:
  assumes c: "consistent cmp"
  shows "sorted_wrt (\<lambda>a b. cmp a b \<le> 0) (sort_array cmp xs) \<and>
         filter (\<lambda>x. cmp x key = 0) (sort_array cmp xs) = filter (\<lambda>x. cmp x key = 0) xs"
proof (cases "length xs < 2")
  case True
  then have "xs = [] \<or> (\<exists>x. xs = [x])"
    by (cases xs) (auto simp add: length_Suc_conv)
  with True show ?thesis by (auto simp add: sort_array_def)
next
  case False
  obtain run rest where r: "CountAndMakeRun cmp xs = (run, rest)"
    by (cases "CountAndMakeRun cmp xs") auto
  from CountAndMakeRun_stable [OF c r, of key]
  have s: "sorted_wrt (\<lambda>a b. cmp a b \<le> 0) run"
    and f: "filter (\<lambda>x. cmp x key = 0) (run @ rest) = filter (\<lambda>x. cmp x key = 0) xs"
    by blast+
  from BinaryInsertionSort_stable [OF c s, of rest key] f False r
  show ?thesis by (simp add: sort_array_def)
qed

text \<open>
  The rating functions are consistent, and so are the title and status functions when
  \<open>localeCompare\<close> is; the collation by character codes is an instance. Under the five
  sort options that use them, games with the same key (title, status, rating with absent
  as 0) keep the relative order of the filtered list.
\<close>

lemma consistent_rating_high: "consistent cmp_rating_high"
  unfolding consistent_def cmp_rating_high_def by auto

lemma consistent_rating_low: "consistent cmp_rating_low"
  unfolding consistent_def cmp_rating_low_def by auto

lemma consistent_title_az: "consistent lc \<Longrightarrow> consistent (cmp_title_az lc)"
  unfolding consistent_def cmp_title_az_def by blast

lemma consistent_title_za: "consistent lc \<Longrightarrow> consistent (cmp_title_za lc)"
  unfolding consistent_def cmp_title_za_def by blast

lemma consistent_status: "consistent lc \<Longrightarrow> consistent (cmp_status lc)"
  unfolding consistent_def cmp_status_def by blast

lemma sort_array_stable_key:
  assumes c: "consistent cmp" and k: "\<And>a b. f a = f b \<Longrightarrow> cmp a b = 0"
  shows "filter (\<lambda>x. f x = v) (sort_array cmp xs) = filter (\<lambda>x. f x = v) xs"
proof (cases "\<exists>g \<in> set xs. f g = v")
  case False
  have "set (sort_array cmp xs) = set xs"
    by (metis mset_sort_array set_mset_mset)
  with False have "filter (\<lambda>x. f x = v) (sort_array cmp xs) = []" "filter (\<lambda>x. f x = v) xs = []"
    by (simp_all only: filter_empty_conv) blast+
  then show ?thesis by simp
next
  case True
  then obtain g where g: "f g = v" by blast
  have imp: "(cmp x g = 0 \<and> f x = v) \<longleftrightarrow> f x = v" for x
  proof
    assume "cmp x g = 0 \<and> f x = v"
    then show "f x = v" by (rule conjunct2)
  next
    assume v: "f x = v"
    with g have "f x = f g" by (simp only:)
    then have "cmp x g = 0" by (rule k)
    then show "cmp x g = 0 \<and> f x = v" using v by (rule conjI)
  qed
  have "filter (\<lambda>x. f x = v) ys = filter (\<lambda>x. f x = v) (filter (\<lambda>x. cmp x g = 0) ys)" for ys
    by (simp only: filter_filter imp)
  then show ?thesis using sort_array_stable [OF c, of xs g] by metis
qed

lemma consistent_refl: "consistent cmp \<Longrightarrow> cmp a a = 0"
  unfolding consistent_def by blast

lemma view_stable_consistent_modes:
  assumes c: "consistent lc"
  shows "filter (\<lambda>g. title g = t) (filteredGames lc gs searchTerm sp sg ss ''title-az'')
       = filter (\<lambda>g. title g = t) (filterStage gs searchTerm sp sg ss) \<and>
     filter (\<lambda>g. title g = t) (filteredGames lc gs searchTerm sp sg ss ''title-za'')
       = filter (\<lambda>g. title g = t) (filterStage gs searchTerm sp sg ss) \<and>
     filter (\<lambda>g. status g = s) (filteredGames lc gs searchTerm sp sg ss ''status'')
       = filter (\<lambda>g. status g = s) (filterStage gs searchTerm sp sg ss) \<and>
     filter (\<lambda>g. ratingOr0 g = r) (filteredGames lc gs searchTerm sp sg ss ''rating-high'')
       = filter (\<lambda>g. ratingOr0 g = r) (filterStage gs searchTerm sp sg ss) \<and>
     filter (\<lambda>g. ratingOr0 g = r) (filteredGames lc gs searchTerm sp sg ss ''rating-low'')
       = filter (\<lambda>g. ratingOr0 g = r) (filterStage gs searchTerm sp sg ss)"
proof -
  let ?F = "filterStage gs searchTerm sp sg ss"
  have az: "filter (\<lambda>g. title g = t) (sort_array (cmp_title_az lc) ?F) = filter (\<lambda>g. title g = t) ?F"
    by (rule sort_array_stable_key [OF consistent_title_az [OF c]])
       (simp add: cmp_title_az_def consistent_refl [OF c])
  have za: "filter (\<lambda>g. title g = t) (sort_array (cmp_title_za lc) ?F) = filter (\<lambda>g. title g = t) ?F"
    by (rule sort_array_stable_key [OF consistent_title_za [OF c]])
       (simp add: cmp_title_za_def consistent_refl [OF c])
  have st: "filter (\<lambda>g. status g = s) (sort_array (cmp_status lc) ?F) = filter (\<lambda>g. status g = s) ?F"
    by (rule sort_array_stable_key [OF consistent_status [OF c]])
       (simp add: cmp_status_def consistent_refl [OF c])
  have rh: "filter (\<lambda>g. ratingOr0 g = r) (sort_array cmp_rating_high ?F) = filter (\<lambda>g. ratingOr0 g = r) ?F"
    by (rule sort_array_stable_key [OF consistent_rating_high]) (simp add: cmp_rating_high_def)
  have rl: "filter (\<lambda>g. ratingOr0 g = r) (sort_array cmp_rating_low ?F) = filter (\<lambda>g. ratingOr0 g = r) ?F"
    by (rule sort_array_stable_key [OF consistent_rating_low]) (simp add: cmp_rating_low_def)
  from az za st rh rl show ?thesis by (simp add: filteredGames_def Let_def)
qed

lemma str_less_lexordp:
  "str_less a b \<longleftrightarrow> ord_class.lexordp (map of_char a) (map of_char b :: nat list)"
  by (induction a b rule: str_less.induct) auto

lemma map_of_char_inject: "map of_char a = (map of_char b :: nat list) \<longleftrightarrow> a = b"
  by (simp add: inj_map_eq_map inj_on_def)

lemma str_less_trans: "str_less a b \<Longrightarrow> str_less b c \<Longrightarrow> str_less a c"
  unfolding str_less_lexordp by (rule lexordp_trans)

lemma str_less_total: "str_less a b \<or> a = b \<or> str_less b a"
  unfolding str_less_lexordp
  using lexordp_linear [of "map of_char a :: nat list" "map of_char b"]
  by (simp only: map_of_char_inject)

lemma str_less_asym: "str_less a b \<Longrightarrow> \<not> str_less b a"
  unfolding str_less_lexordp using lexordp_antisym by blast

lemma consistent_codeUnitCompare: "consistent codeUnitCompare"
proof -
  have le: "codeUnitCompare a b \<le> 0 \<longleftrightarrow> \<not> str_less b a" for a b
    using str_less_asym [of a b] by (simp add: codeUnitCompare_def)
  have "\<not> str_less c a" if "\<not> str_less b a" "\<not> str_less c b" for a b c
    using that str_less_total [of a b] str_less_total [of b c] str_less_trans [of a b c]
      str_less_asym [of a c] by blast
  then have tr: "codeUnitCompare a b \<le> 0 \<and> codeUnitCompare b c \<le> 0 \<longrightarrow> codeUnitCompare a c \<le> 0"
    for a b c
    unfolding le by blast
  have r: "codeUnitCompare a a = 0" for a
    by (simp add: codeUnitCompare_def str_less_irrefl)
  have f: "codeUnitCompare a b < 0 \<longleftrightarrow> 0 < codeUnitCompare b a" for a b
    using str_less_asym [of a b] by (simp add: codeUnitCompare_def)
  from r f tr show ?thesis unfolding consistent_def by blast
qed

text \<open>
  C4. Celeste and Hollow Knight were added on the same date and Celeste precedes Hollow
  Knight in the filtered list; sorted by date, newest or oldest first, Hollow Knight
  precedes Celeste.
\<close>

theorem date_sort_reverses_ties:
  "filterStage [celeste, hollow] [] [] [] [] = [celeste, hollow] \<and>
   dateAdded celeste = dateAdded hollow \<and>
   filteredGames codeUnitCompare [celeste, hollow] [] [] [] [] ''date-newest'' = [hollow, celeste] \<and>
   filteredGames codeUnitCompare [celeste, hollow] [] [] [] [] ''date-oldest'' = [hollow, celeste]"
  by (simp add: filteredGames_def filterStage_def matchesSearch_def matchesPlatforms_def
      matchesGenres_def matchesStatus_def toLowerCase_def sort_array_def CountAndMakeRun_def
      BinaryInsertionSort_def cmp_date_newest_def cmp_date_oldest_def celeste_def hollow_def
      exampleGame_def)






section \<open>Persistence adapter and metadata client\<close>

text \<open>
  C7. \<open>loadGames\<close> always returns a value: the parsed value when the blob parses, and
  the empty array when the key is missing, when the blob does not parse, or when reading
  the storage fails. The host's parser rejects the empty string.
\<close>

theorem loadGames_never_raises:
  assumes "\<exists>e. JSON_parse [] = Inl e"
  shows "(\<exists>v. loadGames JSON_parse getItem = Inr v) \<and>
    (\<forall>d v. getItem = Inr (Some d) \<and> JSON_parse d = Inr v \<longrightarrow> loadGames JSON_parse getItem = Inr v) \<and>
    (getItem = Inr None \<longrightarrow> loadGames JSON_parse getItem = Inr (JArr [])) \<and>
    (\<forall>d e. getItem = Inr (Some d) \<and> JSON_parse d = Inl e \<longrightarrow>
        loadGames JSON_parse getItem = Inr (JArr [])) \<and>
    (\<forall>e. getItem = Inl e \<longrightarrow> loadGames JSON_parse getItem = Inr (JArr []))"
  using assms
  by (auto simp add: loadGames_def loadGames_try_def split: sum.splits option.splits)

theorem loadGames_never_raises_witness:
  "loadGames exampleParse (Inr (Some ''[{}]'')) = Inr (JArr [JObj []]) \<and>
   loadGames exampleParse (Inr (Some ''[{'')) = Inr (JArr []) \<and>
   loadGames exampleParse (Inr None) = Inr (JArr [])"
proof -
  have h: "\<exists>e. exampleParse [] = Inl e" by (simp add: exampleParse_def)
  have p1: "exampleParse ''[{}]'' = Inr (JArr [JObj []])"
    and p2: "exampleParse ''[{'' = Inl (SyntaxError ''Unexpected token'')"
    by (simp_all add: exampleParse_def)
  from loadGames_never_raises [of exampleParse "Inr (Some ''[{}]'')", OF h] p1
  have "loadGames exampleParse (Inr (Some ''[{}]'')) = Inr (JArr [JObj []])" by blast
  moreover from loadGames_never_raises [of exampleParse "Inr (Some ''[{'')", OF h] p2
  have "loadGames exampleParse (Inr (Some ''[{'')) = Inr (JArr [])" by blast
  moreover from loadGames_never_raises [of exampleParse "Inr None", OF h]
  have "loadGames exampleParse (Inr None) = Inr (JArr [])" by blast
  ultimately show ?thesis by simp
qed









end
